theory Spec2Isabelle
  imports Main "HOL-Library.AList"
begin

section \<open>JavaScript values\<close>

text \<open>
  The widgets of \<^verbatim>\<open>Forms.tsx\<close> and of the display file are generic in the
  item type \<^verbatim>\<open>T\<close>, but they inspect their values at run time
  (\<^verbatim>\<open>typeof\<close>, \<^verbatim>\<open>=== undefined\<close>, the spreading of
  \<^verbatim>\<open>Array.prototype.concat\<close>), so the values are modelled by one type of
  JavaScript values. Numbers are restricted to integers (array indices and enumeration
  values are integers); a hole of an array reads as \<^verbatim>\<open>undefined\<close> and is
  modelled by it. An object is the list of its own enumerable string-keyed properties
  in creation order.
\<close>

datatype jsval =
    Undefined
  | Null
  | Bool bool
  | Num int
  | Str string
  | Arr "jsval list"
  | Obj "(string \<times> jsval) list"

text \<open>The \<^verbatim>\<open>typeof\<close> operator.\<close>

fun typeof :: "jsval \<Rightarrow> string" where
  "typeof Undefined = ''undefined''"
| "typeof Null = ''object''"
| "typeof (Bool b) = ''boolean''"
| "typeof (Num n) = ''number''"
| "typeof (Str s) = ''string''"
| "typeof (Arr xs) = ''object''"
| "typeof (Obj ps) = ''object''"

text \<open>\<^verbatim>\<open>ToBoolean\<close>, which decides the left operand of \<^verbatim>\<open>&&\<close>.\<close>

fun truthy :: "jsval \<Rightarrow> bool" where
  "truthy Undefined = False"
| "truthy Null = False"
| "truthy (Bool b) = b"
| "truthy (Num n) = (n \<noteq> 0)"
| "truthy (Str s) = (s \<noteq> [])"
| "truthy (Arr xs) = True"
| "truthy (Obj ps) = True"

text \<open>
  Reading \<^verbatim>\<open>xs[i]\<close> at a non-negative index: out of range the result is
  \<^verbatim>\<open>undefined\<close>. Writing \<^verbatim>\<open>xs[i] = v\<close>: out of range the array is
  extended, the positions in between being holes.
\<close>

definition js_get :: "jsval list \<Rightarrow> nat \<Rightarrow> jsval" where
  "js_get xs i = (if i < length xs then xs ! i else Undefined)"

definition js_set :: "jsval list \<Rightarrow> nat \<Rightarrow> jsval \<Rightarrow> jsval list" where
  "js_set xs i v =
     (if i < length xs then xs[i := v]
      else xs @ replicate (i - length xs) Undefined @ [v])"

text \<open>
  Reading \<^verbatim>\<open>xs[k]\<close> where \<^verbatim>\<open>k\<close> is any integer: a negative
  \<^verbatim>\<open>k\<close> names an ordinary property, which an array built by
  \<^verbatim>\<open>map\<close> does not have.
\<close>

definition js_index :: "jsval list \<Rightarrow> int \<Rightarrow> jsval" where
  "js_index xs k = (if k < 0 then Undefined else js_get xs (nat k))"


section \<open>Property keys and objects\<close>

text \<open>
  A property key is a string; a number used as a key is first converted by
  \<^verbatim>\<open>ToString\<close>. For a safe integer (\<^verbatim>\<open>Number.isSafeInteger\<close>, magnitude at
  most \<open>2^53 - 1\<close>) the result is its decimal numeral, with a minus sign when
  negative, and \<open>string_of_int\<close> is \<^verbatim>\<open>ToString\<close> on these integers only:
  JavaScript switches to exponent notation from \<open>10^21\<close> on, and a number beyond the
  safe range need not be an integer of the model at all. The theorems that convert a
  number to a key assume that it is a safe integer.
\<close>

definition safe_integer :: "int \<Rightarrow> bool" where
  "safe_integer i = (\<bar>i\<bar> \<le> 9007199254740991)"

definition digits :: string where
  "digits = ''0123456789''"

fun string_of_nat :: "nat \<Rightarrow> string" where
  "string_of_nat n =
     (if n < 10 then [digits ! n] else string_of_nat (n div 10) @ [digits ! (n mod 10)])"

declare string_of_nat.simps [simp del]

definition string_of_int :: "int \<Rightarrow> string" where
  "string_of_int i =
     (if i < 0 then CHR ''-'' # string_of_nat (nat (- i)) else string_of_nat (nat i))"

text \<open>
  The converse reading of a key. \<open>int_of_string s\<close> is the integer whose
  \<^verbatim>\<open>ToString\<close> is \<open>s\<close>, if there is one; \<open>array_index s\<close> is the array
  index that \<open>s\<close> denotes, if it denotes one (a canonical numeral below
  \<open>2^32 - 1\<close>).
\<close>

fun digit_val :: "char \<Rightarrow> nat" where
  "digit_val c = length (takeWhile (\<lambda>d. d \<noteq> c) digits)"

definition nat_of_string :: "string \<Rightarrow> nat" where
  "nat_of_string s = foldl (\<lambda>a c. 10 * a + digit_val c) 0 s"

definition int_of_string :: "string \<Rightarrow> int option" where
  "int_of_string s =
     (case s of
        [] \<Rightarrow> None
      | c # ds \<Rightarrow>
          if c = CHR ''-''
          then (if string_of_nat (nat_of_string ds) = ds \<and> nat_of_string ds \<noteq> 0
                then Some (- int (nat_of_string ds)) else None)
          else (if string_of_nat (nat_of_string s) = s
                then Some (int (nat_of_string s)) else None))"

definition array_index :: "string \<Rightarrow> nat option" where
  "array_index s =
     (if string_of_nat (nat_of_string s) = s \<and> nat_of_string s < 4294967295
      then Some (nat_of_string s) else None)"

type_synonym js_object = "(string \<times> jsval) list"

text \<open>
  \<^verbatim>\<open>Object.entries(obj)\<close> lists the own properties in the order of
  \<^verbatim>\<open>OrdinaryOwnPropertyKeys\<close>: the keys that are array indices first, in
  ascending numeric order, then the other string keys in creation order.
\<close>

definition Object_entries :: "js_object \<Rightarrow> (string \<times> jsval) list" where
  "Object_entries obj =
     sort_key (\<lambda>(k, v). the (array_index k)) (filter (\<lambda>(k, v). array_index k \<noteq> None) obj)
     @ filter (\<lambda>(k, v). array_index k = None) obj"

text \<open>
  \<^verbatim>\<open>obj[k]\<close> reads a property, \<^verbatim>\<open>undefined\<close> when there is none;
  \<^verbatim>\<open>obj[k] = v\<close> overwrites an existing property in place and creates a new
  one at the end.
\<close>

definition obj_get :: "js_object \<Rightarrow> string \<Rightarrow> jsval" where
  "obj_get obj k = (case map_of obj k of None \<Rightarrow> Undefined | Some v \<Rightarrow> v)"

definition obj_set :: "js_object \<Rightarrow> string \<Rightarrow> jsval \<Rightarrow> js_object" where
  "obj_set obj k v = AList.update k v obj"


section \<open>Symbol tables\<close>

text \<open>
  Modelled from the spec: the symbol tables \<^verbatim>\<open>Role\<close>, \<^verbatim>\<open>Vote\<close>,
  \<^verbatim>\<open>QuestStatus\<close> and \<^verbatim>\<open>GameStatus\<close> that \<^verbatim>\<open>Forms.tsx\<close> passes as
  \<^verbatim>\<open>enumType\<close> are imported from \<^verbatim>\<open>./types\<close>, which is not among the
  sources. The spec describes a symbol table as a mapping from label to numeric value,
  which some tables extend with reverse-alias string entries. Both kinds are built from
  the list of the members \<^verbatim>\<open>name = v\<close> in declaration order. \<open>label_table\<close> is
  the table without aliases, the object \<^verbatim>\<open>{ name: v, ... }\<close>. \<open>ts_enum\<close> is the
  table with aliases, the object a TypeScript \<^verbatim>\<open>enum\<close> declaration is compiled
  to: each member is defined by \<^verbatim>\<open>E[E["name"] = v] = "name"\<close>, which sets the entry
  of the label first and then its reverse alias.
\<close>

definition label_table :: "(string \<times> int) list \<Rightarrow> js_object" where
  "label_table members = map (\<lambda>(name, v). (name, Num v)) members"

fun define_member :: "js_object \<Rightarrow> string \<times> int \<Rightarrow> js_object" where
  "define_member E (name, v) =
     obj_set (obj_set E name (Num v)) (string_of_int v) (Str name)"

definition ts_enum :: "(string \<times> int) list \<Rightarrow> js_object" where
  "ts_enum members = foldl define_member [] members"

text \<open>
  The label that the reverse alias of a number ends up with: the last member declared
  with that value.
\<close>

fun reverse_label :: "(string \<times> int) list \<Rightarrow> int \<Rightarrow> string option" where
  "reverse_label [] k = None"
| "reverse_label ((name, v) # ms) k =
     (case reverse_label ms k of
        Some later \<Rightarrow> Some later
      | None \<Rightarrow> if v = k then Some name else None)"

text \<open>An invariant of the compilation: no entry with a numeric value has a numeral as key.\<close>

definition numeric_keys_free :: "js_object \<Rightarrow> bool" where
  "numeric_keys_free obj =
     (\<forall>(k, x) \<in> set obj. typeof x = ''number'' \<longrightarrow> int_of_string k = None)"


section \<open>ArrayDisplay: the initial collapse state\<close>

text \<open>
  \<^verbatim>\<open>useState<boolean>(props.value &&
    ((typeof props.value[0] === "object" && props.value.length > 7) || props.value.length > 4))\<close>
\<close>

definition ArrayDisplay_isCollapsed :: "jsval list \<Rightarrow> bool" where
  "ArrayDisplay_isCollapsed value =
     (truthy (Arr value) \<and>
      ((typeof (js_get value 0) = ''object'' \<and> length value > 7) \<or> length value > 4))"


section \<open>EnumDisplay\<close>

text \<open>
  \<^verbatim>\<open>const labels = Object.entries(props.enum)
      .filter(([_, value]) => typeof value === "number").map(([label, _]) => label);
    return <span>{labels[props.value]}</span>\<close>.
  The result is the value of the expression in braces: a string is rendered as text,
  \<^verbatim>\<open>undefined\<close> as nothing. No step of the function can throw on an object.
\<close>

definition EnumDisplay :: "int \<Rightarrow> js_object \<Rightarrow> jsval" where
  "EnumDisplay value enum =
     (let labels = map (\<lambda>(label, _). Str label)
                     (filter (\<lambda>(_, value). typeof value = ''number'') (Object_entries enum))
      in js_index labels value)"


section \<open>UserIdDisplay\<close>

text \<open>
  The component holds \<^verbatim>\<open>isCollapsed\<close> (initially \<^verbatim>\<open>true\<close>) and
  \<^verbatim>\<open>userData\<close> (initially \<^verbatim>\<open>undefined\<close>). Its effect, which depends on
  \<^verbatim>\<open>[value]\<close>, calls \<^verbatim>\<open>lookupUser(value).then(setUserData)\<close> at mount and
  whenever the identifier changes; \<open>uid_lookups\<close> records these calls. The events are
  the settling of a lookup (resolved with a descriptor or with
  \<^verbatim>\<open>undefined\<close>, or rejected, which runs no handler), a click on the toggle
  button, which is rendered only once \<^verbatim>\<open>userData\<close> is defined, and a new
  identifier.
\<close>

record user_data =
  ud_id :: string
  ud_type :: string

datatype uid_event = Resolved "user_data option" | Rejected | Toggle | NewValue string

record uid_state =
  isCollapsed :: bool
  userData :: "user_data option"
  uid_value :: string
  uid_lookups :: "string list"

text \<open>
  What is rendered: the identifier alone beside the icon, or a panel with the display
  name, the toggle button and, when expanded, the labelled fields.
\<close>

datatype uid_view =
    RawIdentifier string
  | Panel string bool "(string \<times> string) list"

definition StringDisplay :: "string \<Rightarrow> string" where
  "StringDisplay v = CHR 0x22 # v @ [CHR 0x22]"

definition UserIdDisplay_mount :: "string \<Rightarrow> uid_state" where
  "UserIdDisplay_mount v =
     \<lparr>isCollapsed = True, userData = None, uid_value = v, uid_lookups = [v]\<rparr>"

fun UserIdDisplay_step :: "uid_state \<Rightarrow> uid_event \<Rightarrow> uid_state" where
  "UserIdDisplay_step s (Resolved d) = s\<lparr>userData := d\<rparr>"
| "UserIdDisplay_step s Rejected = s"
| "UserIdDisplay_step s Toggle =
     (if userData s = None then s else s\<lparr>isCollapsed := \<not> isCollapsed s\<rparr>)"
| "UserIdDisplay_step s (NewValue v) =
     (if v = uid_value s then s
      else s\<lparr>uid_value := v, uid_lookups := uid_lookups s @ [v]\<rparr>)"

text \<open>\<^verbatim>\<open>getUserDisplayName\<close> comes from \<^verbatim>\<open>./base\<close> and is a parameter.\<close>

definition UserIdDisplay :: "(user_data \<Rightarrow> string) \<Rightarrow> uid_state \<Rightarrow> uid_view" where
  "UserIdDisplay getUserDisplayName s =
     (case userData s of
        None \<Rightarrow> RawIdentifier (uid_value s)
      | Some d \<Rightarrow>
          Panel (getUserDisplayName d) (isCollapsed s)
            (if \<not> isCollapsed s
             then [(''UserId'', StringDisplay (ud_id d)), (''type'', StringDisplay (ud_type d))]
             else []))"

text \<open>
  The events that bring no descriptor: every event but a lookup that resolves to one.
  \<open>identifiers v es\<close> lists the identifiers that the component is given: the one of
  the mount, then the one of each \<open>NewValue\<close> event.
\<close>

fun no_descriptor :: "uid_event \<Rightarrow> bool" where
  "no_descriptor (Resolved d) = (d = None)"
| "no_descriptor Rejected = True"
| "no_descriptor Toggle = True"
| "no_descriptor (NewValue v) = True"

definition identifiers :: "string \<Rightarrow> uid_event list \<Rightarrow> string list" where
  "identifiers v es = v # [w. NewValue w \<leftarrow> es]"


section \<open>MethodForm\<close>

text \<open>
  The form holds the staged \<^verbatim>\<open>value\<close>. The Submit handler is
  \<^verbatim>\<open>async () => { const res = await submit(value);
      if (res.type === "error") { toast.error(res.error); } setValue(initialize()); }\<close>.
  A click calls \<^verbatim>\<open>submit\<close> with the staged value and suspends at
  \<^verbatim>\<open>await\<close>; nothing stops another click meanwhile. When the promise resolves,
  the rest of the handler runs; when it rejects, \<^verbatim>\<open>await\<close> throws and the rest
  is skipped. The state records the calls of \<^verbatim>\<open>submit\<close>, the number of
  suspended handlers and the notifications.
\<close>

datatype response = Success | Error string

datatype 'a form_event = SetValue 'a | Click | Resolve response | Reject

record 'a method_form =
  mf_value :: 'a
  mf_submitted :: "'a list"
  mf_awaiting :: nat
  mf_toasts :: "string list"

definition MethodForm_mount :: "(unit \<Rightarrow> 'a) \<Rightarrow> 'a method_form" where
  "MethodForm_mount initialize =
     \<lparr>mf_value = initialize (), mf_submitted = [], mf_awaiting = 0, mf_toasts = []\<rparr>"

fun MethodForm_step ::
  "(unit \<Rightarrow> 'a) \<Rightarrow> 'a method_form \<Rightarrow> 'a form_event \<Rightarrow> 'a method_form" where
  "MethodForm_step initialize s (SetValue v) = s\<lparr>mf_value := v\<rparr>"
| "MethodForm_step initialize s Click =
     s\<lparr>mf_submitted := mf_submitted s @ [mf_value s], mf_awaiting := mf_awaiting s + 1\<rparr>"
| "MethodForm_step initialize s (Resolve res) =
     (if mf_awaiting s = 0 then s
      else (let s' = (case res of Error msg \<Rightarrow> s\<lparr>mf_toasts := mf_toasts s @ [msg]\<rparr>
                              | Success \<Rightarrow> s)
            in s'\<lparr>mf_value := initialize (), mf_awaiting := mf_awaiting s - 1\<rparr>))"
| "MethodForm_step initialize s Reject =
     (if mf_awaiting s = 0 then s else s\<lparr>mf_awaiting := mf_awaiting s - 1\<rparr>)"


section \<open>ArrayInput\<close>

text \<open>
  \<^verbatim>\<open>swapArgs\<close>: \<^verbatim>\<open>[value[i1], value[i2]] = [value[i2], value[i1]]\<close>
  evaluates the right-hand side first and then assigns its two components in order.
  \<^verbatim>\<open>deleteArg\<close>: \<^verbatim>\<open>value.splice(i, 1)\<close>. Both pass the array to
  \<^verbatim>\<open>update\<close>.
\<close>

definition swapArgs :: "jsval list \<Rightarrow> nat \<Rightarrow> nat \<Rightarrow> jsval list" where
  "swapArgs value i1 i2 =
     (let rhs0 = js_get value i2; rhs1 = js_get value i1
      in js_set (js_set value i1 rhs0) i2 rhs1)"

definition splice1 :: "jsval list \<Rightarrow> nat \<Rightarrow> jsval list" where
  "splice1 xs i = take i xs @ drop (Suc i) xs"

definition deleteArg :: "jsval list \<Rightarrow> nat \<Rightarrow> jsval list" where
  "deleteArg value i = splice1 value i"

text \<open>
  \<^verbatim>\<open>xs.concat(item)\<close> with one argument: an argument that is an array is spread,
  its elements are appended; any other argument is appended as one element.
\<close>

definition concat_js :: "jsval list \<Rightarrow> jsval \<Rightarrow> jsval list" where
  "concat_js xs item = (case item of Arr ys \<Rightarrow> xs @ ys | _ \<Rightarrow> xs @ [item])"

text \<open>
  The controls of the component: for each row \<open>i\<close> of \<^verbatim>\<open>value.map\<close> a
  move-up button (\<^verbatim>\<open>disabled={i === 0}\<close>, \<^verbatim>\<open>swapArgs(i, i - 1)\<close>), a
  move-down button (\<^verbatim>\<open>disabled={i === value.length - 1}\<close>,
  \<^verbatim>\<open>swapArgs(i, i + 1)\<close>), a delete button (\<^verbatim>\<open>deleteArg(i)\<close>) and the
  updater handed to the row's editor
  (\<^verbatim>\<open>update(Object.assign(value, { [i]: val }))\<close>); and the Add button
  (\<^verbatim>\<open>update(value.concat(initialVal))\<close>). \<open>ArrayInput value initialVal c\<close> is the
  array passed to \<^verbatim>\<open>update\<close> when the control \<open>c\<close> is used, and \<open>None\<close> when
  \<^verbatim>\<open>update\<close> is not called: the button is disabled, or there is no row \<open>i\<close>.
\<close>

datatype array_click = MoveUp nat | MoveDown nat | Delete nat | ItemUpdate nat jsval | Add

fun ArrayInput :: "jsval list \<Rightarrow> jsval \<Rightarrow> array_click \<Rightarrow> jsval list option" where
  "ArrayInput value initialVal (MoveUp i) =
     (if i < length value \<and> \<not> (i = 0) then Some (swapArgs value i (i - 1)) else None)"
| "ArrayInput value initialVal (MoveDown i) =
     (if i < length value \<and> \<not> (i = length value - 1)
      then Some (swapArgs value i (i + 1)) else None)"
| "ArrayInput value initialVal (Delete i) =
     (if i < length value then Some (deleteArg value i) else None)"
| "ArrayInput value initialVal (ItemUpdate i val) =
     (if i < length value then Some (js_set value i val) else None)"
| "ArrayInput value initialVal Add = Some (concat_js value initialVal)"

definition is_array :: "jsval \<Rightarrow> bool" where
  "is_array v = (case v of Arr ys \<Rightarrow> True | _ \<Rightarrow> False)"


section \<open>OptionalInput\<close>

text \<open>
  \<^verbatim>\<open>checked={value !== undefined}\<close> and
  \<^verbatim>\<open>onChange={() => (value === undefined ? update(initialVal) : update(undefined))}\<close>.
  \<open>OptionalInput_onChange\<close> is the argument the toggle passes to \<^verbatim>\<open>update\<close>;
  \<open>OptionalInput_children\<close> is the value handed to the inner editor, if it is rendered.
\<close>

definition OptionalInput_checked :: "jsval \<Rightarrow> bool" where
  "OptionalInput_checked value = (value \<noteq> Undefined)"

definition OptionalInput_onChange :: "jsval \<Rightarrow> jsval \<Rightarrow> jsval" where
  "OptionalInput_onChange value initialVal =
     (if value = Undefined then initialVal else Undefined)"

definition OptionalInput_children :: "jsval \<Rightarrow> jsval option" where
  "OptionalInput_children value = (if value \<noteq> Undefined then Some value else None)"


section \<open>EnumInput\<close>

text \<open>
  The button shows \<^verbatim>\<open>{enumType[value]}\<close>. The options are
  \<^verbatim>\<open>Object.entries(enumType).filter(([_, val]) => typeof val === "number")\<close>, each
  rendered with \<^verbatim>\<open>value={val}\<close> and the text \<^verbatim>\<open>{label}\<close>; the list box
  has \<^verbatim>\<open>onChange={update}\<close>, so choosing the option at position \<open>j\<close> calls
  \<^verbatim>\<open>update\<close> with that option's \<^verbatim>\<open>val\<close>.
\<close>

definition EnumInput_button :: "int \<Rightarrow> js_object \<Rightarrow> jsval" where
  "EnumInput_button value enumType = obj_get enumType (string_of_int value)"

definition EnumInput_options :: "js_object \<Rightarrow> (string \<times> jsval) list" where
  "EnumInput_options enumType =
     filter (\<lambda>(_, val). typeof val = ''number'') (Object_entries enumType)"

definition EnumInput_onChange :: "js_object \<Rightarrow> nat \<Rightarrow> jsval option" where
  "EnumInput_onChange enumType j =
     (if j < length (EnumInput_options enumType)
      then Some (snd (EnumInput_options enumType ! j)) else None)"


section \<open>Decimal numerals\<close>

lemma digit_val_digits: "d < 10 \<Longrightarrow> digit_val (digits ! d) = d"
proof -
  assume "d < 10"
  then have "d \<in> {0, 1, 2, 3, 4, 5, 6, 7, 8, 9}" by auto
  then show ?thesis by (auto simp: digits_def)
qed

lemma digits_not_minus: "d < 10 \<Longrightarrow> digits ! d \<noteq> CHR ''-''"
proof -
  assume "d < 10"
  then have "d \<in> {0, 1, 2, 3, 4, 5, 6, 7, 8, 9}" by auto
  then show ?thesis by (auto simp: digits_def)
qed

lemma nat_of_string_snoc: "nat_of_string (s @ [c]) = 10 * nat_of_string s + digit_val c"
  by (simp add: nat_of_string_def)

lemma nat_of_string_of_nat: "nat_of_string (string_of_nat n) = n"
proof (induction n rule: string_of_nat.induct)
  case (1 n)
  show ?case
  proof (cases "n < 10")
    case True
    then show ?thesis
      using digit_val_digits [of n] by (simp add: string_of_nat.simps [of n] nat_of_string_def del: digit_val.simps)
  next
    case False
    then have "nat_of_string (string_of_nat (n div 10)) = n div 10" using 1 by simp
    then show ?thesis
      using False digit_val_digits [of "n mod 10"]
      by (simp add: string_of_nat.simps [of n] nat_of_string_snoc del: digit_val.simps)
  qed
qed

lemma string_of_nat_inj: "string_of_nat m = string_of_nat n \<Longrightarrow> m = n"
  by (metis nat_of_string_of_nat)

lemma string_of_nat_hd: "\<exists>c cs. string_of_nat n = c # cs \<and> c \<noteq> CHR ''-''"
proof (induction n rule: string_of_nat.induct)
  case (1 n)
  show ?case
  proof (cases "n < 10")
    case True
    then show ?thesis using digits_not_minus [of n] by (simp add: string_of_nat.simps [of n])
  next
    case False
    then obtain c cs where "string_of_nat (n div 10) = c # cs \<and> c \<noteq> CHR ''-''"
      using 1 by blast
    then show ?thesis using False by (simp add: string_of_nat.simps [of n])
  qed
qed

lemma int_of_string_of_nat: "int_of_string (string_of_nat n) = Some (int n)"
proof -
  obtain c cs where h: "string_of_nat n = c # cs" "c \<noteq> CHR ''-''"
    using string_of_nat_hd by blast
  have "nat_of_string (c # cs) = n" "string_of_nat (nat_of_string (c # cs)) = c # cs"
    using h nat_of_string_of_nat [of n] by simp_all
  then show ?thesis using h by (simp add: int_of_string_def)
qed

lemma int_of_string_of_int: "int_of_string (string_of_int i) = Some i"
proof (cases "i < 0")
  case True
  then have "nat (- i) \<noteq> 0" by simp
  then show ?thesis using True
    by (simp add: string_of_int_def int_of_string_def nat_of_string_of_nat)
next
  case False
  then show ?thesis by (simp add: string_of_int_def int_of_string_of_nat)
qed

lemma string_of_int_inj: "string_of_int i = string_of_int j \<Longrightarrow> i = j"
  by (metis int_of_string_of_int option.inject)

lemma array_index_int_of_string: "array_index k = Some n \<Longrightarrow> int_of_string k = Some (int n)"
proof -
  assume "array_index k = Some n"
  then have "string_of_nat n = k"
    by (auto simp: array_index_def split: if_splits)
  then show ?thesis using int_of_string_of_nat [of n] by simp
qed


section \<open>Objects and symbol tables\<close>

lemma set_Object_entries: "set (Object_entries obj) = set obj"
  by (auto simp: Object_entries_def)

lemma distinct_Object_entries: "distinct obj \<Longrightarrow> distinct (Object_entries obj)"
  by (auto simp: Object_entries_def)

lemma filter_sort_key_empty:
  "\<forall>x \<in> set xs. \<not> P x \<Longrightarrow> filter P (sort_key f xs) = []"
  by (simp add: filter_empty_conv)

lemma Object_entries_numeric:
  assumes "numeric_keys_free obj"
  shows "filter (\<lambda>(_, value). typeof value = ''number'') (Object_entries obj)
         = filter (\<lambda>(_, value). typeof value = ''number'') obj"
proof -
  have a: "array_index k = None" if "(k, x) \<in> set obj" "typeof x = ''number''" for k x
  proof (cases "array_index k")
    case None
    then show ?thesis .
  next
    case (Some n)
    then have "int_of_string k = Some (int n)" by (rule array_index_int_of_string)
    moreover have "int_of_string k = None"
      using assms that by (auto simp: numeric_keys_free_def)
    ultimately show ?thesis by simp
  qed
  have "filter (\<lambda>(_, value). typeof value = ''number'')
          (sort_key (\<lambda>(k, v). the (array_index k)) (filter (\<lambda>(k, v). array_index k \<noteq> None) obj)) = []"
    using a by (intro filter_sort_key_empty) auto
  moreover have "filter (\<lambda>(_, value). typeof value = ''number'') (filter (\<lambda>(k, v). array_index k = None) obj)
       = filter (\<lambda>(_, value). typeof value = ''number'') obj"
    using a by (auto intro!: filter_cong)
  ultimately show ?thesis by (simp add: Object_entries_def)
qed

lemma update_absent: "k \<notin> fst ` set al \<Longrightarrow> AList.update k v al = al @ [(k, v)]"
  by (induction al) auto

lemma set_update_subset: "set (AList.update k v al) \<subseteq> insert (k, v) (set al)"
  by (induction al) auto

lemma keys_update: "fst ` set (AList.update k v al) = insert k (fst ` set al)"
  using AList.dom_update [of k v al] by (simp add: dom_map_of_conv_image_fst)

lemma filter_update_alias:
  assumes "numeric_keys_free al" and "int_of_string k \<noteq> None" and "typeof v \<noteq> ''number''"
  shows "filter (\<lambda>(_, value). typeof value = ''number'') (AList.update k v al)
         = filter (\<lambda>(_, value). typeof value = ''number'') al"
  using assms
proof (induction al)
  case Nil
  then show ?case by simp
next
  case (Cons p al)
  have "numeric_keys_free al" using Cons.prems(1) by (simp add: numeric_keys_free_def)
  then have ih: "filter (\<lambda>(_, value). typeof value = ''number'') (AList.update k v al)
         = filter (\<lambda>(_, value). typeof value = ''number'') al"
    using Cons by simp
  show ?case
  proof (cases "fst p = k")
    case True
    then have "typeof (snd p) \<noteq> ''number''"
      using Cons.prems(1,2) by (auto simp: numeric_keys_free_def)
    then show ?thesis using True Cons.prems(3) by (cases p) simp
  next
    case False
    then show ?thesis using ih by (cases p) simp
  qed
qed

lemma define_member_numeric:
  assumes "numeric_keys_free E" and "fst m \<notin> fst ` set E" and "int_of_string (fst m) = None"
  shows "filter (\<lambda>(_, value). typeof value = ''number'') (define_member E m)
         = filter (\<lambda>(_, value). typeof value = ''number'') E @ [(fst m, Num (snd m))]"
    and "numeric_keys_free (define_member E m)"
    and "fst ` set (define_member E m)
         \<subseteq> insert (fst m) (fst ` set E) \<union> {k. int_of_string k \<noteq> None}"
proof -
  obtain name v where m: "m = (name, v)" by (cases m)
  have e1: "AList.update name (Num v) E = E @ [(name, Num v)]"
    using assms(2) m by (simp add: update_absent)
  have "numeric_keys_free (E @ [(name, Num v)])"
    using assms(1,3) m by (auto simp: numeric_keys_free_def)
  then have "filter (\<lambda>(_, value). typeof value = ''number'')
               (AList.update (string_of_int v) (Str name) (E @ [(name, Num v)]))
             = filter (\<lambda>(_, value). typeof value = ''number'') (E @ [(name, Num v)])"
    by (intro filter_update_alias) (simp_all add: int_of_string_of_int)
  then show "filter (\<lambda>(_, value). typeof value = ''number'') (define_member E m)
         = filter (\<lambda>(_, value). typeof value = ''number'') E @ [(fst m, Num (snd m))]"
    using m e1 by (simp add: obj_set_def)
  have "set (define_member E m) \<subseteq> {(string_of_int v, Str name), (name, Num v)} \<union> set E"
    using m set_update_subset [of "string_of_int v" "Str name" "AList.update name (Num v) E"]
      set_update_subset [of name "Num v" E]
    by (auto simp: obj_set_def)
  then show "numeric_keys_free (define_member E m)"
    using assms(1,3) m by (fastforce simp: numeric_keys_free_def)
  show "fst ` set (define_member E m)
        \<subseteq> insert (fst m) (fst ` set E) \<union> {k. int_of_string k \<noteq> None}"
    using m by (auto simp: obj_set_def keys_update int_of_string_of_int)
qed

lemma foldl_define_member_numeric:
  assumes "numeric_keys_free E"
    and "distinct (map fst ms)"
    and "\<forall>name \<in> set (map fst ms). int_of_string name = None \<and> name \<notin> fst ` set E"
  shows "filter (\<lambda>(_, value). typeof value = ''number'') (foldl define_member E ms)
         = filter (\<lambda>(_, value). typeof value = ''number'') E
           @ map (\<lambda>(name, v). (name, Num v)) ms"
  using assms
proof (induction ms arbitrary: E)
  case Nil
  then show ?case by simp
next
  case (Cons m ms)
  have m: "fst m \<notin> fst ` set E" "int_of_string (fst m) = None"
    using Cons.prems(3) by simp_all
  note dm = define_member_numeric [OF Cons.prems(1) m]
  have keys: "\<forall>name \<in> set (map fst ms).
      int_of_string name = None \<and> name \<notin> fst ` set (define_member E m)"
  proof
    fix name assume n: "name \<in> set (map fst ms)"
    then have a: "int_of_string name = None" "name \<notin> fst ` set E"
      using Cons.prems(3) by auto
    have "fst m \<notin> set (map fst ms)" using Cons.prems(2) by simp
    then have "name \<noteq> fst m" using n by blast
    with a have "name \<notin> insert (fst m) (fst ` set E) \<union> {k. int_of_string k \<noteq> None}"
      by simp
    then show "int_of_string name = None \<and> name \<notin> fst ` set (define_member E m)"
      using a dm(3) by blast
  qed
  have "filter (\<lambda>(_, value). typeof value = ''number'') (foldl define_member (define_member E m) ms)
         = filter (\<lambda>(_, value). typeof value = ''number'') (define_member E m)
           @ map (\<lambda>(name, v). (name, Num v)) ms"
    using Cons.IH [OF dm(2) _ keys] Cons.prems(2) by simp
  then show ?case
    using dm(1) by (simp add: split_def)
qed

lemma ts_enum_numeric_entries:
  assumes "distinct (map fst members)"
    and "\<forall>name \<in> set (map fst members). int_of_string name = None"
  shows "filter (\<lambda>(_, value). typeof value = ''number'') (Object_entries (ts_enum members))
         = map (\<lambda>(name, v). (name, Num v)) members"
proof -
  have e: "numeric_keys_free []" by (simp add: numeric_keys_free_def)
  have f: "filter (\<lambda>(_, value). typeof value = ''number'') (ts_enum members)
         = map (\<lambda>(name, v). (name, Num v)) members"
    using foldl_define_member_numeric [OF e assms(1)] assms(2) by (simp add: ts_enum_def)
  have "numeric_keys_free (ts_enum members)"
    unfolding numeric_keys_free_def
  proof (clarify)
    fix k x assume kx: "(k, x) \<in> set (ts_enum members)" "typeof x = ''number''"
    then have "(k, x) \<in> set (filter (\<lambda>(_, value). typeof value = ''number'') (ts_enum members))"
      by simp
    then have "(k, x) \<in> set (map (\<lambda>(name, v). (name, Num v)) members)"
      using f by simp
    then have "k \<in> set (map fst members)" by force
    then show "int_of_string k = None" using assms(2) by blast
  qed
  then show ?thesis using f by (simp add: Object_entries_numeric)
qed

lemma map_of_define_member_alias:
  assumes "int_of_string (fst m) = None"
  shows "map_of (define_member E m) (string_of_int k)
         = (if snd m = k then Some (Str (fst m)) else map_of E (string_of_int k))"
proof -
  obtain name v where m: "m = (name, v)" by (cases m)
  have ne: "name \<noteq> string_of_int j" for j
    using assms m int_of_string_of_int [of j] by auto
  show ?thesis
    using m ne [of k] ne [of v] string_of_int_inj [of v k]
    by (auto simp: obj_set_def AList.update_conv')
qed

lemma map_of_foldl_define_member_alias:
  assumes "\<forall>name \<in> set (map fst ms). int_of_string name = None"
  shows "map_of (foldl define_member E ms) (string_of_int k)
         = (case reverse_label ms k of
              Some name \<Rightarrow> Some (Str name)
            | None \<Rightarrow> map_of E (string_of_int k))"
  using assms
proof (induction ms arbitrary: E)
  case Nil
  then show ?case by simp
next
  case (Cons m ms)
  have a: "int_of_string (fst m) = None" using Cons.prems by simp
  have b: "\<forall>name \<in> set (map fst ms). int_of_string name = None" using Cons.prems by simp
  show ?case
    using Cons.IH [OF b, of "define_member E m"] map_of_define_member_alias [OF a, of E k]
    by (cases m) (auto split: option.splits)
qed

lemma EnumInput_button_ts_enum:
  assumes "\<forall>name \<in> set (map fst members). int_of_string name = None"
  shows "EnumInput_button k (ts_enum members)
         = (case reverse_label members k of Some name \<Rightarrow> Str name | None \<Rightarrow> Undefined)"
  using map_of_foldl_define_member_alias [OF assms, of "[]" k]
  by (simp add: EnumInput_button_def obj_get_def ts_enum_def split: option.splits)

lemma reverse_label_member:
  "reverse_label ms k = Some name \<Longrightarrow> (name, k) \<in> set ms"
  by (induction ms) (auto split: option.splits if_splits)

lemma reverse_label_None:
  "reverse_label ms k = None \<Longrightarrow> k \<notin> snd ` set ms"
  by (induction ms) (force split: option.splits if_splits)+

lemma EnumDisplay_ts_enum:
  assumes "distinct (map fst members)"
    and "\<forall>name \<in> set (map fst members). int_of_string name = None"
    and "i < length members"
  shows "EnumDisplay (int i) (ts_enum members) = Str (fst (members ! i))"
proof -
  have "EnumDisplay (int i) (ts_enum members)
        = js_index (map (\<lambda>(label, _). Str label)
            (map (\<lambda>(name, v). (name, Num v)) members)) (int i)"
    unfolding EnumDisplay_def ts_enum_numeric_entries [OF assms(1,2)] by simp
  then show ?thesis
    using assms(3) by (simp add: js_index_def js_get_def split_def)
qed


section \<open>ArrayDisplay\<close>

lemma ArrayDisplay_isCollapsed_length:
  "ArrayDisplay_isCollapsed value = (length value > 4)"
  by (auto simp: ArrayDisplay_isCollapsed_def)

text \<open>
  Claim C4. The initial collapse state of ArrayDisplay is the heuristic: collapsed iff
  the sequence is non-empty and ((the first item is of object shape and the length
  exceeds 7) or the length exceeds 4). In particular an array of 5 scalar items starts
  collapsed, an array of 4 scalar items starts expanded, and an array of 1 object item
  starts expanded.
\<close>

theorem C4_collapse_heuristic:
  "ArrayDisplay_isCollapsed value =
     (value \<noteq> [] \<and>
      ((typeof (value ! 0) = ''object'' \<and> length value > 7) \<or> length value > 4))
   \<and> (length value = 5 \<and> (\<forall>x \<in> set value. typeof x \<noteq> ''object'')
        \<longrightarrow> ArrayDisplay_isCollapsed value)
   \<and> (length value = 4 \<and> (\<forall>x \<in> set value. typeof x \<noteq> ''object'')
        \<longrightarrow> \<not> ArrayDisplay_isCollapsed value)
   \<and> (length value = 1 \<and> typeof (value ! 0) = ''object''
        \<longrightarrow> \<not> ArrayDisplay_isCollapsed value)"
  by (auto simp: ArrayDisplay_isCollapsed_def js_get_def)

theorem C4_collapse_heuristic_witness:
  "ArrayDisplay_isCollapsed [Num 1, Num 2, Num 3, Num 4, Num 5]
   \<and> \<not> ArrayDisplay_isCollapsed [Str ''a'', Str ''b'', Str ''c'', Str ''d'']
   \<and> \<not> ArrayDisplay_isCollapsed [Obj [(''x'', Num 1)]]"
  using C4_collapse_heuristic [of "[Num 1, Num 2, Num 3, Num 4, Num 5]"]
    C4_collapse_heuristic [of "[Str ''a'', Str ''b'', Str ''c'', Str ''d'']"]
    C4_collapse_heuristic [of "[Obj [(''x'', Num 1)]]"]
  by simp


section \<open>EnumDisplay\<close>

text \<open>
  Claim C5. For every symbol table and every integer \<open>k\<close>, EnumDisplay for the value
  \<open>k\<close> renders the label at position \<open>k\<close> among the entries of the table whose value
  is a number (the entries with a string value are left out) whenever \<open>k\<close> lies in
  \<open>[0, n)\<close> for the number \<open>n\<close> of such entries; for every other \<open>k\<close> the
  expression is \<^verbatim>\<open>undefined\<close>, which renders nothing, and nothing is thrown.
\<close>

theorem C5_enum_display_label:
  "(0 \<le> k \<and> k < int (length (filter (\<lambda>(_, value). typeof value = ''number'') (Object_entries enum)))
      \<longrightarrow> EnumDisplay k enum
            = Str (fst (filter (\<lambda>(_, value). typeof value = ''number'') (Object_entries enum) ! nat k))
          \<and> typeof (snd (filter (\<lambda>(_, value). typeof value = ''number'') (Object_entries enum) ! nat k))
            = ''number'')
   \<and> (\<not> (0 \<le> k \<and> k < int (length (filter (\<lambda>(_, value). typeof value = ''number'') (Object_entries enum))))
      \<longrightarrow> EnumDisplay k enum = Undefined)"
proof (intro conjI impI)
  let ?ne = "filter (\<lambda>(_, value). typeof value = ''number'') (Object_entries enum)"
  assume h: "0 \<le> k \<and> k < int (length ?ne)"
  then have n: "nat k < length ?ne" by linarith
  then show "EnumDisplay k enum = Str (fst (?ne ! nat k))"
    using h by (simp add: EnumDisplay_def js_index_def js_get_def split_def)
  have "?ne ! nat k \<in> set ?ne" using n by (rule nth_mem)
  then show "typeof (snd (?ne ! nat k)) = ''number''" by auto
next
  let ?ne = "filter (\<lambda>(_, value). typeof value = ''number'') (Object_entries enum)"
  assume "\<not> (0 \<le> k \<and> k < int (length ?ne))"
  then show "EnumDisplay k enum = Undefined"
    by (auto simp: EnumDisplay_def js_index_def js_get_def)
qed

lemma Object_entries_example:
  "Object_entries [(''Approve'', Num 0), (''0'', Str ''Approve''),
                   (''Reject'', Num 1), (''1'', Str ''Reject'')]
   = [(''0'', Str ''Approve''), (''1'', Str ''Reject''), (''Approve'', Num 0), (''Reject'', Num 1)]"
  by (simp add: Object_entries_def array_index_def nat_of_string_def string_of_nat.simps
      digits_def)

theorem C5_enum_display_label_witness:
  "EnumDisplay 1 [(''Approve'', Num 0), (''0'', Str ''Approve''),
                  (''Reject'', Num 1), (''1'', Str ''Reject'')] = Str ''Reject''
   \<and> EnumDisplay 2 [(''Approve'', Num 0), (''0'', Str ''Approve''),
                    (''Reject'', Num 1), (''1'', Str ''Reject'')] = Undefined
   \<and> EnumDisplay (- 1) [(''Approve'', Num 0), (''0'', Str ''Approve''),
                    (''Reject'', Num 1), (''1'', Str ''Reject'')] = Undefined"
  using C5_enum_display_label [of 1 "[(''Approve'', Num 0), (''0'', Str ''Approve''),
                  (''Reject'', Num 1), (''1'', Str ''Reject'')]"]
    C5_enum_display_label [of 2 "[(''Approve'', Num 0), (''0'', Str ''Approve''),
                  (''Reject'', Num 1), (''1'', Str ''Reject'')]"]
    C5_enum_display_label [of "- 1" "[(''Approve'', Num 0), (''0'', Str ''Approve''),
                  (''Reject'', Num 1), (''1'', Str ''Reject'')]"]
  by (simp add: Object_entries_example)


section \<open>UserIdDisplay\<close>

lemma identifiers_snoc:
  "identifiers v (es @ [e]) = (case e of NewValue w \<Rightarrow> identifiers v es @ [w] | _ \<Rightarrow> identifiers v es)"
  by (cases e) (simp_all add: identifiers_def)

lemma remdups_adj_snoc:
  assumes "xs \<noteq> []"
  shows "remdups_adj (xs @ [w]) = (if last xs = w then remdups_adj xs else remdups_adj xs @ [w])"
proof -
  have "remdups_adj (butlast xs @ [last xs, w])
        = remdups_adj (butlast xs @ [last xs]) @ (if last xs = w then [] else [w])"
    by (rule remdups_adj_append_two)
  moreover have "butlast xs @ [last xs, w] = xs @ [w]" "butlast xs @ [last xs] = xs"
    using assms by simp_all
  ultimately show ?thesis by simp
qed

lemma pre_descriptor_run:
  "\<forall>e \<in> set es. no_descriptor e \<Longrightarrow>
     foldl UserIdDisplay_step (UserIdDisplay_mount v) es
     = \<lparr>isCollapsed = True, userData = None, uid_value = last (identifiers v es),
        uid_lookups = remdups_adj (identifiers v es)\<rparr>"
proof (induction es rule: rev_induct)
  case Nil
  then show ?case by (simp add: UserIdDisplay_mount_def identifiers_def)
next
  case (snoc e es)
  then have ih: "foldl UserIdDisplay_step (UserIdDisplay_mount v) es
     = \<lparr>isCollapsed = True, userData = None, uid_value = last (identifiers v es),
        uid_lookups = remdups_adj (identifiers v es)\<rparr>"
    and e: "no_descriptor e" by simp_all
  have ne: "identifiers v es \<noteq> []" by (simp add: identifiers_def)
  show ?case
  proof (cases e)
    case (Resolved d)
    then show ?thesis using ih e by (simp add: identifiers_snoc)
  next
    case Rejected
    then show ?thesis using ih by (simp add: identifiers_snoc)
  next
    case Toggle
    then show ?thesis using ih by (simp add: identifiers_snoc)
  next
    case (NewValue w)
    then show ?thesis using ih ne by (simp add: identifiers_snoc remdups_adj_snoc)
  qed
qed

text \<open>
  Claim C9, as stated, fails after an identifier change: the descriptor of the first
  identifier is kept, so while the lookup of the second identifier is pending or has
  failed the display is still the panel of the first, not the raw second identifier.
\<close>

theorem C9_stale_panel_counterexample:
  "UserIdDisplay ud_id
     (foldl UserIdDisplay_step (UserIdDisplay_mount ''u1'')
        [Resolved (Some \<lparr>ud_id = ''u1'', ud_type = ''human''\<rparr>), NewValue ''u2'', Rejected])
     = Panel ''u1'' True []
   \<and> uid_lookups
       (foldl UserIdDisplay_step (UserIdDisplay_mount ''u1'')
          [Resolved (Some \<lparr>ud_id = ''u1'', ud_type = ''human''\<rparr>), NewValue ''u2'', Rejected])
     = [''u1'', ''u2'']
   \<and> UserIdDisplay ud_id
       (foldl UserIdDisplay_step (UserIdDisplay_mount ''u1'')
          [Resolved (Some \<lparr>ud_id = ''u1'', ud_type = ''human''\<rparr>), NewValue ''u2'', Rejected])
     \<noteq> RawIdentifier ''u2''"
  by (simp add: UserIdDisplay_def UserIdDisplay_mount_def)

text \<open>
  Claim C9, amended. From the mount and as long as no lookup has resolved to a
  descriptor (lookups pending, resolved to \<^verbatim>\<open>undefined\<close> or rejected, also across
  changes of the identifier), the display is the current raw identifier beside the
  icon, and the lookups made are one for the mount and one for each change of the
  identifier, none repeated. When a lookup then resolves to a descriptor, the display
  is a panel that starts collapsed, and a click on its button expands it to exactly two
  fields: \<^verbatim>\<open>UserId\<close> with the descriptor's identifier and \<^verbatim>\<open>type\<close> with
  its type, each between double quotes.
\<close>

theorem C9_reference_display:
  assumes "\<forall>e \<in> set es. no_descriptor e"
  shows "UserIdDisplay g (foldl UserIdDisplay_step (UserIdDisplay_mount v) es)
          = RawIdentifier (last (identifiers v es))
       \<and> uid_lookups (foldl UserIdDisplay_step (UserIdDisplay_mount v) es)
          = remdups_adj (identifiers v es)
       \<and> UserIdDisplay g (UserIdDisplay_step
            (foldl UserIdDisplay_step (UserIdDisplay_mount v) es) (Resolved (Some d)))
          = Panel (g d) True []
       \<and> UserIdDisplay g (UserIdDisplay_step (UserIdDisplay_step
            (foldl UserIdDisplay_step (UserIdDisplay_mount v) es) (Resolved (Some d))) Toggle)
          = Panel (g d) False
              [(''UserId'', CHR 0x22 # ud_id d @ [CHR 0x22]),
               (''type'', CHR 0x22 # ud_type d @ [CHR 0x22])]"
  unfolding pre_descriptor_run [OF assms]
  by (simp add: UserIdDisplay_def StringDisplay_def)

theorem C9_reference_display_witness:
  "UserIdDisplay ud_id (foldl UserIdDisplay_step (UserIdDisplay_mount ''u1'') [Rejected])
     = RawIdentifier ''u1''
   \<and> uid_lookups (foldl UserIdDisplay_step (UserIdDisplay_mount ''u1'') [Rejected]) = [''u1'']
   \<and> UserIdDisplay ud_id
       (foldl UserIdDisplay_step (UserIdDisplay_mount ''u1'') [Rejected, NewValue ''u2'', Resolved None])
     = RawIdentifier ''u2''
   \<and> uid_lookups
       (foldl UserIdDisplay_step (UserIdDisplay_mount ''u1'') [Rejected, NewValue ''u2'', Resolved None])
     = [''u1'', ''u2'']
   \<and> UserIdDisplay ud_id (UserIdDisplay_step
        (foldl UserIdDisplay_step (UserIdDisplay_mount ''u1'') [])
        (Resolved (Some \<lparr>ud_id = ''u1'', ud_type = ''human''\<rparr>)))
     = Panel ''u1'' True []
   \<and> UserIdDisplay ud_id (UserIdDisplay_step (UserIdDisplay_step
        (foldl UserIdDisplay_step (UserIdDisplay_mount ''u1'') [])
        (Resolved (Some \<lparr>ud_id = ''u1'', ud_type = ''human''\<rparr>))) Toggle)
     = Panel ''u1'' False
         [(''UserId'', [CHR 0x22, CHR ''u'', CHR ''1'', CHR 0x22]),
          (''type'', [CHR 0x22, CHR ''h'', CHR ''u'', CHR ''m'', CHR ''a'', CHR ''n'', CHR 0x22])]"
  using C9_reference_display [of "[Rejected]" ud_id "''u1''"
      "\<lparr>ud_id = ''u1'', ud_type = ''human''\<rparr>"]
    C9_reference_display [of "[Rejected, NewValue ''u2'', Resolved None]" ud_id "''u1''"
      "\<lparr>ud_id = ''u1'', ud_type = ''human''\<rparr>"]
    C9_reference_display [of "[]" ud_id "''u1''"
      "\<lparr>ud_id = ''u1'', ud_type = ''human''\<rparr>"]
  by (simp add: identifiers_def)


section \<open>MethodForm\<close>

text \<open>
  Claim C8. For every state of the form and every response: a click on Submit calls
  \<^verbatim>\<open>submit\<close> with the staged value and leaves that value as it is; when the call
  resolves with an error response its message is added to the notifications, and with a
  success response nothing is; in both cases the staged value becomes
  \<^verbatim>\<open>initialize()\<close>, also when the value was edited while the call was in flight;
  and a second click while a call is in flight calls \<^verbatim>\<open>submit\<close> again.
\<close>

theorem C8_method_form_submit:
  "mf_submitted (MethodForm_step initialize s Click) = mf_submitted s @ [mf_value s]
   \<and> mf_value (MethodForm_step initialize s Click) = mf_value s
   \<and> mf_toasts (MethodForm_step initialize (MethodForm_step initialize s Click) (Resolve (Error msg)))
       = mf_toasts s @ [msg]
   \<and> mf_toasts (MethodForm_step initialize (MethodForm_step initialize s Click) (Resolve Success))
       = mf_toasts s
   \<and> mf_value (MethodForm_step initialize (MethodForm_step initialize s Click) (Resolve res))
       = initialize ()
   \<and> mf_value (MethodForm_step initialize
        (MethodForm_step initialize (MethodForm_step initialize s Click) (SetValue v)) (Resolve res))
       = initialize ()
   \<and> mf_submitted (MethodForm_step initialize (MethodForm_step initialize s Click) Click)
       = mf_submitted s @ [mf_value s, mf_value s]
   \<and> mf_awaiting (MethodForm_step initialize (MethodForm_step initialize s Click) Click)
       = mf_awaiting s + 2"
  by (simp add: Let_def split: response.splits)


text \<open>
  A run from the mount: the user stages a payload, submits it, and the call resolves
  with an error response.
\<close>

lemma MethodForm_submit_error_run:
  "foldl (MethodForm_step initialize) (MethodForm_mount initialize)
     [SetValue payload, Click, Resolve (Error ''already voted'')]
   = \<lparr>mf_value = initialize (), mf_submitted = [payload], mf_awaiting = 0,
      mf_toasts = [''already voted'']\<rparr>"
  by (simp add: MethodForm_mount_def)


section \<open>ArrayInput\<close>

lemma swapArgs_in_range:
  "i1 < length xs \<Longrightarrow> i2 < length xs \<Longrightarrow> swapArgs xs i1 i2 = xs[i1 := xs ! i2, i2 := xs ! i1]"
  by (simp add: swapArgs_def js_get_def js_set_def)

lemma swapArgs_length:
  "i1 < length xs \<Longrightarrow> i2 < length xs \<Longrightarrow> length (swapArgs xs i1 i2) = length xs"
  by (simp add: swapArgs_in_range)

lemma swapArgs_twice:
  "i1 < length xs \<Longrightarrow> i2 < length xs \<Longrightarrow> swapArgs (swapArgs xs i1 i2) i1 i2 = xs"
  by (auto simp: swapArgs_in_range nth_list_update list_eq_iff_nth_eq)

lemma swapArgs_twice_flipped:
  "i1 < length xs \<Longrightarrow> i2 < length xs \<Longrightarrow> swapArgs (swapArgs xs i1 i2) i2 i1 = xs"
  by (auto simp: swapArgs_in_range nth_list_update list_eq_iff_nth_eq)

lemma concat_js_scalar: "\<not> is_array d \<Longrightarrow> concat_js xs d = xs @ [d]"
  by (cases d) (simp_all add: concat_js_def is_array_def)

lemma deleteArg_length: "i < length xs \<Longrightarrow> length (deleteArg xs i) = length xs - 1"
  by (simp add: deleteArg_def splice1_def)

lemma deleteArg_nth_before: "j < i \<Longrightarrow> i < length xs \<Longrightarrow> deleteArg xs i ! j = xs ! j"
  by (simp add: deleteArg_def splice1_def nth_append)

lemma deleteArg_nth_after:
  "i \<le> j \<Longrightarrow> j < length xs - 1 \<Longrightarrow> i < length xs \<Longrightarrow> deleteArg xs i ! j = xs ! (j + 1)"
  by (auto simp: deleteArg_def splice1_def nth_append)

lemma ArrayInput_edits:
  assumes "i < length value"
  shows "(\<not> is_array initialVal \<longrightarrow>
            (\<exists>ys. ArrayInput value initialVal Add = Some ys \<and> length ys = length value + 1
               \<and> (\<forall>j < length value. ys ! j = value ! j) \<and> ys ! length value = initialVal))"
    and "\<exists>ys. ArrayInput value initialVal (Delete i) = Some ys \<and> length ys = length value - 1
               \<and> (\<forall>j < i. ys ! j = value ! j)
               \<and> (\<forall>j. i \<le> j \<and> j < length ys \<longrightarrow> ys ! j = value ! (j + 1))"
    and "0 < i \<longrightarrow> (\<exists>ys. ArrayInput value initialVal (MoveUp i) = Some ys \<and> length ys = length value
               \<and> ys ! i = value ! (i - 1) \<and> ys ! (i - 1) = value ! i
               \<and> (\<forall>j < length value. j \<noteq> i \<and> j \<noteq> i - 1 \<longrightarrow> ys ! j = value ! j))"
    and "i + 1 < length value \<longrightarrow> (\<exists>ys. ArrayInput value initialVal (MoveDown i) = Some ys \<and> length ys = length value
               \<and> ys ! i = value ! (i + 1) \<and> ys ! (i + 1) = value ! i
               \<and> (\<forall>j < length value. j \<noteq> i \<and> j \<noteq> i + 1 \<longrightarrow> ys ! j = value ! j))"
    and "\<exists>ys. ArrayInput value initialVal (ItemUpdate i val) = Some ys \<and> length ys = length value
               \<and> ys ! i = val \<and> (\<forall>j < length value. j \<noteq> i \<longrightarrow> ys ! j = value ! j)"
proof -
  show "(\<not> is_array initialVal \<longrightarrow>
            (\<exists>ys. ArrayInput value initialVal Add = Some ys \<and> length ys = length value + 1
               \<and> (\<forall>j < length value. ys ! j = value ! j) \<and> ys ! length value = initialVal))"
    by (simp add: concat_js_scalar nth_append)
  show "\<exists>ys. ArrayInput value initialVal (Delete i) = Some ys \<and> length ys = length value - 1
               \<and> (\<forall>j < i. ys ! j = value ! j)
               \<and> (\<forall>j. i \<le> j \<and> j < length ys \<longrightarrow> ys ! j = value ! (j + 1))"
    using assms by (simp add: deleteArg_length deleteArg_nth_before deleteArg_nth_after)
  show "0 < i \<longrightarrow> (\<exists>ys. ArrayInput value initialVal (MoveUp i) = Some ys \<and> length ys = length value
               \<and> ys ! i = value ! (i - 1) \<and> ys ! (i - 1) = value ! i
               \<and> (\<forall>j < length value. j \<noteq> i \<and> j \<noteq> i - 1 \<longrightarrow> ys ! j = value ! j))"
    using assms by (auto simp: swapArgs_in_range nth_list_update)
  show "i + 1 < length value \<longrightarrow> (\<exists>ys. ArrayInput value initialVal (MoveDown i) = Some ys \<and> length ys = length value
               \<and> ys ! i = value ! (i + 1) \<and> ys ! (i + 1) = value ! i
               \<and> (\<forall>j < length value. j \<noteq> i \<and> j \<noteq> i + 1 \<longrightarrow> ys ! j = value ! j))"
    using assms by (auto simp: swapArgs_in_range nth_list_update)
  show "\<exists>ys. ArrayInput value initialVal (ItemUpdate i val) = Some ys \<and> length ys = length value
               \<and> ys ! i = val \<and> (\<forall>j < length value. j \<noteq> i \<longrightarrow> ys ! j = value ! j)"
    using assms by (simp add: js_set_def)
qed


lemma ArrayInput_add_array_default:
  "ArrayInput value (Arr ys) Add = Some (value @ ys)"
  by (simp add: concat_js_def)

lemma append_then_delete_last:
  "\<not> is_array initialVal \<Longrightarrow>
     \<exists>ys. ArrayInput value initialVal Add = Some ys \<and>
       ArrayInput ys initialVal (Delete (length ys - 1)) = Some value"
  by (simp add: concat_js_scalar deleteArg_def splice1_def)

text \<open>
  Claim C1 (each edit operation keeps the untouched items in order and changes the
  length as specified; Add yields length + 1). Delete, the two moves and the update of
  an item do so on every array, and Add does so for a default that is not an array
  (lemma \<open>ArrayInput_edits\<close>). On an array of arrays, whose default item is the empty
  array, Add passes to \<^verbatim>\<open>update\<close> an array of the same length:
  \<^verbatim>\<open>concat\<close> spreads its argument instead of appending it.
\<close>

theorem C1_add_spreads_array_default:
  "ArrayInput [Arr [Num 1]] (Arr []) Add = Some [Arr [Num 1]]
   \<and> \<not> (\<exists>ys. ArrayInput [Arr [Num 1]] (Arr []) Add = Some ys
             \<and> length ys = length [Arr [Num 1]] + 1)
   \<and> ArrayInput [Arr [Num 1]] (Arr [Num 2, Num 3]) Add = Some [Arr [Num 1], Num 2, Num 3]"
  by (simp add: concat_js_def)

text \<open>
  Claim C2. Swapping adjacent items is its own inverse: after a move down at \<open>i\<close>
  (or a move up at \<open>i\<close>), the same move again, or the opposite move at the other index,
  gives back the original array. The controls are inert at the boundaries: move up at
  index 0 and move down at the last index do not call \<^verbatim>\<open>update\<close>.
\<close>

theorem C2_swap_involution:
  "(i + 1 < length value \<longrightarrow>
      (\<exists>ys. ArrayInput value initialVal (MoveDown i) = Some ys
          \<and> ArrayInput ys initialVal (MoveDown i) = Some value
          \<and> ArrayInput ys initialVal (MoveUp (i + 1)) = Some value))
   \<and> (0 < i \<and> i < length value \<longrightarrow>
      (\<exists>ys. ArrayInput value initialVal (MoveUp i) = Some ys
          \<and> ArrayInput ys initialVal (MoveUp i) = Some value
          \<and> ArrayInput ys initialVal (MoveDown (i - 1)) = Some value))
   \<and> ArrayInput value initialVal (MoveUp 0) = None
   \<and> ArrayInput value initialVal (MoveDown (length value - 1)) = None"
proof (intro conjI impI)
  assume h: "i + 1 < length value"
  then have d: "ArrayInput value initialVal (MoveDown i) = Some (swapArgs value i (i + 1))"
    by simp
  have l: "length (swapArgs value i (i + 1)) = length value"
    using h by (simp add: swapArgs_in_range)
  have "ArrayInput (swapArgs value i (i + 1)) initialVal (MoveDown i) = Some value"
    using h l by (simp add: swapArgs_twice)
  moreover have "ArrayInput (swapArgs value i (i + 1)) initialVal (MoveUp (i + 1)) = Some value"
    using h l by (simp add: swapArgs_twice_flipped)
  ultimately show "\<exists>ys. ArrayInput value initialVal (MoveDown i) = Some ys
          \<and> ArrayInput ys initialVal (MoveDown i) = Some value
          \<and> ArrayInput ys initialVal (MoveUp (i + 1)) = Some value"
    using d by simp
next
  assume h: "0 < i \<and> i < length value"
  then have p: "i < length value" "i - 1 < length value" "i \<noteq> 0" "Suc (i - 1) = i"
    by auto
  have d: "ArrayInput value initialVal (MoveUp i) = Some (swapArgs value i (i - 1))"
    using p by simp
  have l: "length (swapArgs value i (i - 1)) = length value"
    using p by (simp add: swapArgs_length)
  have "ArrayInput (swapArgs value i (i - 1)) initialVal (MoveUp i) = Some value"
    using p l swapArgs_twice [of i "value" "i - 1"] by simp
  moreover have "ArrayInput (swapArgs value i (i - 1)) initialVal (MoveDown (i - 1)) = Some value"
    using p l swapArgs_twice_flipped [of i "value" "i - 1"] by simp
  ultimately show "\<exists>ys. ArrayInput value initialVal (MoveUp i) = Some ys
          \<and> ArrayInput ys initialVal (MoveUp i) = Some value
          \<and> ArrayInput ys initialVal (MoveDown (i - 1)) = Some value"
    using d by simp
next
  show "ArrayInput value initialVal (MoveUp 0) = None" by simp
next
  show "ArrayInput value initialVal (MoveDown (length value - 1)) = None" by simp
qed


theorem C2_swap_involution_witness:
  "ArrayInput [Num 1, Num 2, Num 3] (Num 0) (MoveDown 1) = Some [Num 1, Num 3, Num 2]
   \<and> ArrayInput [Num 1, Num 3, Num 2] (Num 0) (MoveDown 1) = Some [Num 1, Num 2, Num 3]
   \<and> ArrayInput [Num 1, Num 2, Num 3] (Num 0) (MoveUp 0) = None
   \<and> ArrayInput [Num 1, Num 2, Num 3] (Num 0) (MoveDown 2) = None"
  using C2_swap_involution [of 1 "[Num 1, Num 2, Num 3]" "Num 0"]
  by (simp add: swapArgs_def js_get_def js_set_def)

text \<open>
  Claim C3 (Add followed by the deletion of the last item gives back the original
  array, for any default item). It does for a default that is not an array (lemma
  \<open>append_then_delete_last\<close>). With the empty array as default, Add leaves the array
  of arrays as it is, and the deletion of the last item then removes an original item.
\<close>

theorem C3_add_then_delete_last_array_default:
  "ArrayInput [Arr [Num 1]] (Arr []) Add = Some [Arr [Num 1]]
   \<and> ArrayInput [Arr [Num 1]] (Arr []) (Delete 0) = Some []
   \<and> \<not> (\<exists>ys. ArrayInput [Arr [Num 1]] (Arr []) Add = Some ys
             \<and> ArrayInput ys (Arr []) (Delete (length ys - 1)) = Some [Arr [Num 1]])"
  by (simp add: concat_js_def deleteArg_def splice1_def)


section \<open>OptionalInput\<close>

text \<open>
  Claim C7. Toggling an absent value calls \<^verbatim>\<open>update\<close> with the caller's default;
  toggling a present value calls it with \<^verbatim>\<open>undefined\<close>, whatever the inner value
  was; so present, absent, present ends at the caller's default and not at the value
  that was discarded; the state of the switch and the presence of the inner editor are
  functions of the current value alone.
\<close>

theorem C7_optional_toggle:
  "OptionalInput_onChange Undefined initialVal = initialVal
   \<and> (value \<noteq> Undefined \<longrightarrow> OptionalInput_onChange value initialVal = Undefined)
   \<and> (value \<noteq> Undefined \<longrightarrow>
        OptionalInput_onChange (OptionalInput_onChange value initialVal) initialVal = initialVal)
   \<and> OptionalInput_checked value = (value \<noteq> Undefined)
   \<and> OptionalInput_children value = (if OptionalInput_checked value then Some value else None)"
  by (simp add: OptionalInput_onChange_def OptionalInput_checked_def OptionalInput_children_def)

theorem C7_optional_toggle_witness:
  "Num 7 \<noteq> Undefined
   \<and> OptionalInput_onChange (Num 7) (Num 0) = Undefined
   \<and> OptionalInput_onChange (OptionalInput_onChange (Num 7) (Num 0)) (Num 0) = Num 0
   \<and> OptionalInput_onChange (OptionalInput_onChange (Num 7) (Num 0)) (Num 0) \<noteq> Num 7"
  using C7_optional_toggle [of "Num 0" "Num 7"]
  by simp


section \<open>EnumInput\<close>

text \<open>
  Claim C6. For every symbol table (an object, whose keys are distinct), the options of
  EnumInput are exactly the entries of the table whose value is a number, each once
  (the entries with a string value are left out), and choosing an option calls
  \<^verbatim>\<open>update\<close> with the number that the table gives to the option's label.
\<close>

theorem C6_enum_input_options:
  assumes "distinct (map fst enumType)"
  shows "set (EnumInput_options enumType)
           = {(label, val). (label, val) \<in> set enumType \<and> typeof val = ''number''}
       \<and> distinct (EnumInput_options enumType)
       \<and> (\<forall>j < length (EnumInput_options enumType).
            EnumInput_onChange enumType j = Some (snd (EnumInput_options enumType ! j))
          \<and> typeof (snd (EnumInput_options enumType ! j)) = ''number''
          \<and> obj_get enumType (fst (EnumInput_options enumType ! j))
              = snd (EnumInput_options enumType ! j))"
proof (intro conjI allI impI)
  show "set (EnumInput_options enumType)
           = {(label, val). (label, val) \<in> set enumType \<and> typeof val = ''number''}"
    by (auto simp: EnumInput_options_def set_Object_entries)
  have "distinct enumType" using assms by (rule distinct_map [THEN iffD1, THEN conjunct1])
  then show "distinct (EnumInput_options enumType)"
    by (simp add: EnumInput_options_def distinct_Object_entries)
next
  fix j assume j: "j < length (EnumInput_options enumType)"
  then show "EnumInput_onChange enumType j = Some (snd (EnumInput_options enumType ! j))"
    by (simp add: EnumInput_onChange_def)
  have m: "EnumInput_options enumType ! j \<in> set (EnumInput_options enumType)"
    using j by (rule nth_mem)
  then show "typeof (snd (EnumInput_options enumType ! j)) = ''number''"
    by (auto simp: EnumInput_options_def)
  have "EnumInput_options enumType ! j \<in> set enumType"
    using m by (auto simp: EnumInput_options_def set_Object_entries)
  then have "map_of enumType (fst (EnumInput_options enumType ! j))
             = Some (snd (EnumInput_options enumType ! j))"
    using assms by (simp add: map_of_eq_Some_iff)
  then show "obj_get enumType (fst (EnumInput_options enumType ! j))
              = snd (EnumInput_options enumType ! j)"
    by (simp add: obj_get_def)
qed


theorem C6_enum_input_options_witness:
  "distinct (map fst [(''Approve'', Num 0), (''0'', Str ''Approve''),
                      (''Reject'', Num 1), (''1'', Str ''Reject'')])
   \<and> EnumInput_options [(''Approve'', Num 0), (''0'', Str ''Approve''),
                         (''Reject'', Num 1), (''1'', Str ''Reject'')]
       = [(''Approve'', Num 0), (''Reject'', Num 1)]
   \<and> EnumInput_onChange [(''Approve'', Num 0), (''0'', Str ''Approve''),
                          (''Reject'', Num 1), (''1'', Str ''Reject'')] 1 = Some (Num 1)
   \<and> obj_get [(''Approve'', Num 0), (''0'', Str ''Approve''),
               (''Reject'', Num 1), (''1'', Str ''Reject'')] ''Reject'' = Num 1"
proof -
  let ?e = "[(''Approve'', Num 0), (''0'', Str ''Approve''),
             (''Reject'', Num 1), (''1'', Str ''Reject'')]"
  have d: "distinct (map fst ?e)" by simp
  have o: "EnumInput_options ?e = [(''Approve'', Num 0), (''Reject'', Num 1)]"
    by (simp add: EnumInput_options_def Object_entries_example)
  have "\<forall>j < length (EnumInput_options ?e).
          EnumInput_onChange ?e j = Some (snd (EnumInput_options ?e ! j))
        \<and> typeof (snd (EnumInput_options ?e ! j)) = ''number''
        \<and> obj_get ?e (fst (EnumInput_options ?e ! j)) = snd (EnumInput_options ?e ! j)"
    using C6_enum_input_options [OF d] by blast
  moreover have "1 < length (EnumInput_options ?e)" by (simp add: o)
  ultimately have "EnumInput_onChange ?e 1 = Some (snd (EnumInput_options ?e ! 1))
        \<and> obj_get ?e (fst (EnumInput_options ?e ! 1)) = snd (EnumInput_options ?e ! 1)"
    by blast
  then show ?thesis
    using d o by simp
qed

lemma label_table_numeric_entries:
  assumes "\<forall>name \<in> set (map fst members). int_of_string name = None"
  shows "filter (\<lambda>(_, value). typeof value = ''number'') (Object_entries (label_table members))
         = label_table members"
proof -
  have "numeric_keys_free (label_table members)"
    using assms by (fastforce simp: numeric_keys_free_def label_table_def)
  then have "filter (\<lambda>(_, value). typeof value = ''number'') (Object_entries (label_table members))
         = filter (\<lambda>(_, value). typeof value = ''number'') (label_table members)"
    by (rule Object_entries_numeric)
  moreover have "filter (\<lambda>(_, value). typeof value = ''number'') (label_table members)
         = label_table members"
    by (auto simp: label_table_def filter_id_conv)
  ultimately show ?thesis by simp
qed

lemma EnumDisplay_label_table:
  assumes "\<forall>name \<in> set (map fst members). int_of_string name = None"
    and "i < length members"
  shows "EnumDisplay (int i) (label_table members) = Str (fst (members ! i))"
proof -
  have "EnumDisplay (int i) (label_table members)
        = js_index (map (\<lambda>(label, _). Str label) (label_table members)) (int i)"
    unfolding EnumDisplay_def label_table_numeric_entries [OF assms(1)] by simp
  then show ?thesis
    using assms(2) by (simp add: js_index_def js_get_def split_def label_table_def)
qed

lemma EnumInput_button_label_table:
  assumes "\<forall>name \<in> set (map fst members). int_of_string name = None"
  shows "EnumInput_button k (label_table members) = Undefined"
proof -
  have "string_of_int k \<notin> fst ` set (label_table members)"
  proof
    assume "string_of_int k \<in> fst ` set (label_table members)"
    then have "string_of_int k \<in> set (map fst members)"
      by (force simp: label_table_def)
    then have "int_of_string (string_of_int k) = None" using assms by blast
    then show False by (simp add: int_of_string_of_int)
  qed
  then have "map_of (label_table members) (string_of_int k) = None"
    by (simp add: map_of_eq_None_iff)
  then show ?thesis by (simp add: EnumInput_button_def obj_get_def)
qed

text \<open>
  Claim C10, as stated, fails on a symbol table without reverse aliases: the numeric
  values of \<^verbatim>\<open>{ Approve: 0, Reject: 1 }\<close> are exactly \<open>0, 1\<close> in declaration
  order, yet the button of EnumInput reads a property that does not exist, while
  EnumDisplay finds the label.
\<close>

theorem C10_alias_free_counterexample:
  "map snd (filter (\<lambda>(_, value). typeof value = ''number'')
       (Object_entries [(''Approve'', Num 0), (''Reject'', Num 1)])) = [Num 0, Num 1]
   \<and> EnumDisplay 0 [(''Approve'', Num 0), (''Reject'', Num 1)] = Str ''Approve''
   \<and> EnumInput_button 0 [(''Approve'', Num 0), (''Reject'', Num 1)] = Undefined
   \<and> EnumDisplay 0 [(''Approve'', Num 0), (''Reject'', Num 1)]
       \<noteq> EnumInput_button 0 [(''Approve'', Num 0), (''Reject'', Num 1)]"
  by (simp add: EnumInput_button_def EnumDisplay_def obj_get_def string_of_int_def
      string_of_nat.simps digits_def Object_entries_def array_index_def nat_of_string_def
      js_index_def js_get_def)

text \<open>
  Claim C10, amended. The display and the editor compute the label of an enumeration
  value by two different functions: EnumDisplay takes the entry at position
  \<open>value\<close> among the labels of the entries with a numeric value, the button of
  EnumInput reads the property \<^verbatim>\<open>enumType[value]\<close>. Take an enumeration of
  \<open>n\<close> members whose names are distinct and are not numerals and whose values are safe
  integers. On its symbol table with reverse aliases, the two functions agree on every
  value in \<open>[0, n)\<close> if the numeric values are exactly \<open>0, ..., n - 1\<close> in declaration
  order, and differ on some value in \<open>[0, n)\<close> if the numeric values are anything else.
  On its symbol table without reverse aliases, the property does not exist and the two
  functions differ on every value in \<open>[0, n)\<close>, whatever the numeric values.
\<close>

theorem C10_enum_label_functions:
  assumes "distinct (map fst members)"
    and "\<forall>name \<in> set (map fst members). int_of_string name = None"
    and "\<forall>v \<in> set (map snd members). safe_integer v"
    and "safe_integer (int (length members))"
  shows "(map snd members = map int [0..<length members]
            \<longrightarrow> (\<forall>k. 0 \<le> k \<and> k < int (length members)
                   \<longrightarrow> EnumDisplay k (ts_enum members) = EnumInput_button k (ts_enum members)))
       \<and> (map snd members \<noteq> map int [0..<length members]
            \<longrightarrow> (\<exists>k. 0 \<le> k \<and> k < int (length members)
                   \<and> EnumDisplay k (ts_enum members) \<noteq> EnumInput_button k (ts_enum members)))
       \<and> (\<forall>k. 0 \<le> k \<and> k < int (length members)
            \<longrightarrow> EnumDisplay k (label_table members) = Str (fst (members ! nat k))
              \<and> EnumInput_button k (label_table members) = Undefined
              \<and> EnumDisplay k (label_table members) \<noteq> EnumInput_button k (label_table members))"
proof (intro conjI impI allI)
  fix k
  assume seq: "map snd members = map int [0..<length members]"
    and k: "0 \<le> k \<and> k < int (length members)"
  define i where "i = nat k"
  then have i: "i < length members" "k = int i" using k by linarith+
  have vi: "snd (members ! i) = int i"
    using seq i(1) by (metis length_map nth_map nth_upt add_0)
  have dv: "distinct (map snd members)"
    using seq by (simp add: distinct_map inj_on_def)
  have disp: "EnumDisplay k (ts_enum members) = Str (fst (members ! i))"
    using EnumDisplay_ts_enum [OF assms(1,2) i(1)] i(2) by simp
  have "reverse_label members k = Some (fst (members ! i))"
  proof (cases "reverse_label members k")
    case None
    then have "k \<notin> snd ` set members" by (rule reverse_label_None)
    moreover have "members ! i \<in> set members" using i(1) by (rule nth_mem)
    ultimately show ?thesis using vi i(2) by force
  next
    case (Some name)
    then have a: "(name, k) \<in> set members" by (rule reverse_label_member)
    have b: "members ! i \<in> set members" using i(1) by (rule nth_mem)
    have inj: "inj_on snd (set members)" using dv by (simp add: distinct_map)
    have eq: "snd (name, k) = snd (members ! i)" using vi i(2) by simp
    have "(name, k) = members ! i"
      by (rule inj_onD [OF inj eq a b])
    then show ?thesis using Some by (metis fst_conv)
  qed
  then show "EnumDisplay k (ts_enum members) = EnumInput_button k (ts_enum members)"
    using disp by (simp add: EnumInput_button_ts_enum [OF assms(2)])
next
  assume neq: "map snd members \<noteq> map int [0..<length members]"
  have "\<exists>i < length members. snd (members ! i) \<noteq> int i"
  proof (rule ccontr)
    assume "\<not> (\<exists>i < length members. snd (members ! i) \<noteq> int i)"
    then have "\<forall>i < length members. map snd members ! i = map int [0..<length members] ! i"
      by simp
    then have "map snd members = map int [0..<length members]"
      by (intro nth_equalityI) simp_all
    with neq show False by simp
  qed
  then obtain i where i: "i < length members" "snd (members ! i) \<noteq> int i"
    by blast
  have disp: "EnumDisplay (int i) (ts_enum members) = Str (fst (members ! i))"
    using EnumDisplay_ts_enum [OF assms(1,2) i(1)] .
  have "EnumInput_button (int i) (ts_enum members) \<noteq> Str (fst (members ! i))"
  proof (cases "reverse_label members (int i)")
    case None
    then show ?thesis by (simp add: EnumInput_button_ts_enum [OF assms(2)])
  next
    case (Some name)
    then have a: "(name, int i) \<in> set members" by (rule reverse_label_member)
    have b: "members ! i \<in> set members" using i(1) by (rule nth_mem)
    have "inj_on fst (set members)"
      using assms(1) by (simp add: distinct_map)
    then have "name \<noteq> fst (members ! i)"
      using a b i(2) by (metis fst_conv snd_conv inj_onD)
    then show ?thesis using Some by (simp add: EnumInput_button_ts_enum [OF assms(2)])
  qed
  then show "\<exists>k. 0 \<le> k \<and> k < int (length members)
                   \<and> EnumDisplay k (ts_enum members) \<noteq> EnumInput_button k (ts_enum members)"
    using disp i(1) by (intro exI [of _ "int i"]) simp
next
  fix k
  assume k: "0 \<le> k \<and> k < int (length members)"
  then have i: "nat k < length members" "k = int (nat k)" by linarith+
  show d: "EnumDisplay k (label_table members) = Str (fst (members ! nat k))"
    using EnumDisplay_label_table [OF assms(2) i(1)] i(2) by simp
  show b: "EnumInput_button k (label_table members) = Undefined"
    by (rule EnumInput_button_label_table [OF assms(2)])
  show "EnumDisplay k (label_table members) \<noteq> EnumInput_button k (label_table members)"
    using d b by simp
qed

lemma int_of_string_examples:
  "int_of_string ''Approve'' = None" "int_of_string ''Reject'' = None"
  by (simp_all add: int_of_string_def nat_of_string_def string_of_nat.simps digits_def)

theorem C10_enum_label_functions_witness:
  "distinct (map fst [(''Approve'', 0::int), (''Reject'', 1)])
   \<and> safe_integer 0 \<and> safe_integer 1 \<and> safe_integer 2
   \<and> EnumDisplay 1 (ts_enum [(''Approve'', 0), (''Reject'', 1)])
       = EnumInput_button 1 (ts_enum [(''Approve'', 0), (''Reject'', 1)])
   \<and> (\<exists>k. 0 \<le> k \<and> k < 2
         \<and> EnumDisplay k (ts_enum [(''Approve'', 1), (''Reject'', 2)])
           \<noteq> EnumInput_button k (ts_enum [(''Approve'', 1), (''Reject'', 2)]))
   \<and> EnumDisplay 1 (label_table [(''Approve'', 0), (''Reject'', 1)]) = Str ''Reject''
   \<and> EnumInput_button 1 (label_table [(''Approve'', 0), (''Reject'', 1)]) = Undefined"
proof -
  let ?a = "[(''Approve'', 0::int), (''Reject'', 1)]"
  let ?b = "[(''Approve'', 1::int), (''Reject'', 2)]"
  have u: "[0..<2] = [0, 1]" by (simp add: upt_rec)
  have da: "distinct (map fst ?a)" and db: "distinct (map fst ?b)" by simp_all
  have na: "\<forall>name \<in> set (map fst ?a). int_of_string name = None"
    and nb: "\<forall>name \<in> set (map fst ?b). int_of_string name = None"
    by (simp_all add: int_of_string_examples)
  have va: "\<forall>v \<in> set (map snd ?a). safe_integer v"
    and vb: "\<forall>v \<in> set (map snd ?b). safe_integer v"
    by (simp_all add: safe_integer_def)
  have la: "safe_integer (int (length ?a))" and lb: "safe_integer (int (length ?b))"
    by (simp_all add: safe_integer_def)
  have s: "safe_integer 0 \<and> safe_integer 1 \<and> safe_integer 2"
    by (simp add: safe_integer_def)
  have sa: "map snd ?a = map int [0..<length ?a]"
    by (simp add: u)
  have sb: "map snd ?b \<noteq> map int [0..<length ?b]"
    by (simp add: u)
  note ta = C10_enum_label_functions [OF da na va la]
  note tb = C10_enum_label_functions [OF db nb vb lb]
  have "EnumDisplay 1 (ts_enum ?a) = EnumInput_button 1 (ts_enum ?a)"
    using ta sa by simp
  moreover have "\<exists>k. 0 \<le> k \<and> k < 2
         \<and> EnumDisplay k (ts_enum ?b) \<noteq> EnumInput_button k (ts_enum ?b)"
    using tb sb by simp
  moreover have "EnumDisplay 1 (label_table ?a) = Str ''Reject''
      \<and> EnumInput_button 1 (label_table ?a) = Undefined"
    using ta by simp
  ultimately show ?thesis using da s by simp
qed

end
